theory Spec2Isabelle
  imports Main "HOL-Library.Word"
begin

unbundle bit_operations_syntax

section \<open>Strings, runes and formatting\<close>

text \<open>
  Every string the program builds is valid UTF-8: string literals in ASCII, one rune
  converted with \<^verbatim>\<open>string(r)\<close>, and decimal digits. Such a string is modelled
  by the sequence of its runes (code points), which is what \<^verbatim>\<open>range\<close> yields and
  what \<^verbatim>\<open>fmt\<close> counts for a width; \<^verbatim>\<open>len\<close> counts bytes and is written out
  as \<open>len\<close> below.
\<close>

type_synonym rune = int
type_synonym gostring = "rune list"

definition str :: "string \<Rightarrow> gostring" where
  "str cs = map of_char cs"

definition utf8_width :: "rune \<Rightarrow> int" where
  "utf8_width r = (if r < 128 then 1 else if r < 2048 then 2 else if r < 65536 then 3 else 4)"

definition len :: "gostring \<Rightarrow> int" where
  "len s = sum_list (map utf8_width s)"

definition RuneError :: rune where
  "RuneError = 65533"

definition string_of_rune :: "rune \<Rightarrow> gostring" where
  \<comment> \<open>\<^verbatim>\<open>string(r)\<close>: a rune outside Unicode, or a surrogate, becomes U+FFFD\<close>
  "string_of_rune r =
     (if 0 \<le> r \<and> r \<le> 1114111 \<and> \<not> (55296 \<le> r \<and> r \<le> 57343) then [r] else [RuneError])"

text \<open>
  The case tables of package \<^verbatim>\<open>unicode\<close> are not part of the program; the functions
  that read them are taken as a parameter. \<open>ascii_unicode\<close> is their restriction to ASCII,
  used to run the model on concrete events.
\<close>

record unicode =
  ToUpper :: "rune \<Rightarrow> rune"
  IsLetter :: "rune \<Rightarrow> bool"
  IsUpper :: "rune \<Rightarrow> bool"

definition ascii_unicode :: unicode where
  "ascii_unicode =
     \<lparr>ToUpper = (\<lambda>r. if 97 \<le> r \<and> r \<le> 122 then r - 32 else r),
      IsLetter = (\<lambda>r. (65 \<le> r \<and> r \<le> 90) \<or> (97 \<le> r \<and> r \<le> 122)),
      IsUpper = (\<lambda>r. 65 \<le> r \<and> r \<le> 90)\<rparr>"

definition strings_ToUpper :: "unicode \<Rightarrow> gostring \<Rightarrow> gostring" where
  \<comment> \<open>\<^verbatim>\<open>strings.ToUpper\<close>: every rune mapped by \<^verbatim>\<open>unicode.ToUpper\<close>\<close>
  "strings_ToUpper U s = concat (map (\<lambda>r. string_of_rune (ToUpper U r)) s)"

definition digit :: "nat \<Rightarrow> rune" where
  "digit d = 48 + int d"

fun decimal :: "nat \<Rightarrow> gostring" where
  "decimal n = (if n < 10 then [digit n] else decimal (n div 10) @ [digit (n mod 10)])"

declare decimal.simps [simp del]

definition fmt_d :: "int \<Rightarrow> gostring" where
  \<comment> \<open>the verb \<^verbatim>\<open>%d\<close>\<close>
  "fmt_d i = (if i < 0 then 45 # decimal (nat (- i)) else decimal (nat i))"

definition pad_left :: "nat \<Rightarrow> gostring \<Rightarrow> gostring" where
  \<comment> \<open>a width without flag, as in \<^verbatim>\<open>%3d\<close>: blanks in front, nothing cut\<close>
  "pad_left n s = replicate (n - length s) 32 @ s"

definition pad_right :: "nat \<Rightarrow> gostring \<Rightarrow> gostring" where
  \<comment> \<open>a width with the flag \<^verbatim>\<open>-\<close>, as in \<^verbatim>\<open>%-7s\<close>: blanks behind, nothing cut\<close>
  "pad_right n s = s @ replicate (n - length s) 32"

fun strings_Join :: "gostring list \<Rightarrow> gostring \<Rightarrow> gostring" where
  "strings_Join [] sep = []"
| "strings_Join [p] sep = p"
| "strings_Join (p # ps) sep = p @ sep @ strings_Join ps sep"

record clock =
  hour :: nat
  minute :: nat
  second :: nat

definition two_digits :: "nat \<Rightarrow> gostring" where
  "two_digits n = [digit (n div 10 mod 10), digit (n mod 10)]"

definition format_time :: "clock \<Rightarrow> gostring" where
  \<comment> \<open>\<^verbatim>\<open>Format("15:04:05")\<close>: hour, minute and second of the day, two digits each\<close>
  "format_time t = two_digits (hour t) @ str '':'' @ two_digits (minute t) @ str '':'' @
     two_digits (second t)"

section \<open>Constants of the terminal library\<close>

text \<open>
  The program reads key events through the library tcell (version 2), which is not part
  of its sources. A key code is a 16-bit integer there and a modifier mask a 16-bit set
  of flags. The values below are the ones the library declares in \<^verbatim>\<open>key.go\<close>: the
  control codes are the ASCII control characters (so \<open>KeyBackspace\<close>, \<open>KeyTab\<close> and
  \<open>KeyEnter\<close> are the codes of Ctrl+H, Ctrl+I and Ctrl+M, and \<open>KeyEscape\<close> follows
  \<open>KeyCtrlZ\<close>), \<open>KeyBackspace2\<close> is DEL, and the named keys count up from \<open>KeyRune\<close> at
  256, the function keys \<open>KeyF1\<close> to \<open>KeyF12\<close> in a row. Key codes are modelled as
  integers without a bound: the program compares them and subtracts \<open>KeyCtrlA\<close> from a
  code of at least that value, which never leaves 16 bits.
\<close>

type_synonym ModMask = "16 word"

definition ModShift :: ModMask where "ModShift = 1"
definition ModCtrl :: ModMask where "ModCtrl = 2"
definition ModAlt :: ModMask where "ModAlt = 4"

definition KeyCtrlA :: int where "KeyCtrlA = 1"
definition KeyCtrlZ :: int where "KeyCtrlZ = 26"
definition KeyBackspace :: int where "KeyBackspace = 8"
definition KeyTab :: int where "KeyTab = 9"
definition KeyEnter :: int where "KeyEnter = 13"
definition KeyEscape :: int where "KeyEscape = 27"
definition KeyBackspace2 :: int where "KeyBackspace2 = 127"
definition KeyRune :: int where "KeyRune = 256"
definition KeyUp :: int where "KeyUp = 257"
definition KeyDown :: int where "KeyDown = 258"
definition KeyRight :: int where "KeyRight = 259"
definition KeyLeft :: int where "KeyLeft = 260"
definition KeyPgUp :: int where "KeyPgUp = 266"
definition KeyPgDn :: int where "KeyPgDn = 267"
definition KeyHome :: int where "KeyHome = 268"
definition KeyEnd :: int where "KeyEnd = 269"
definition KeyInsert :: int where "KeyInsert = 270"
definition KeyDelete :: int where "KeyDelete = 271"
definition KeyF1 :: int where "KeyF1 = 279"
definition KeyF12 :: int where "KeyF12 = 290"

lemmas key_defs =
  KeyCtrlA_def KeyCtrlZ_def KeyBackspace_def KeyTab_def KeyEnter_def KeyEscape_def
  KeyBackspace2_def KeyRune_def KeyUp_def KeyDown_def KeyRight_def KeyLeft_def
  KeyPgUp_def KeyPgDn_def KeyHome_def KeyEnd_def KeyInsert_def KeyDelete_def
  KeyF1_def KeyF12_def

lemmas mod_defs = ModShift_def ModCtrl_def ModAlt_def

definition KeyNames :: "int \<Rightarrow> gostring" where
  \<comment> \<open>the entries of the library's table that \<open>labelFromEvent\<close> looks up; a Go map
      gives the empty string for a key it does not hold\<close>
  "KeyNames k =
     (if KeyF1 \<le> k \<and> k \<le> KeyF12 then str ''F'' @ fmt_d (k - KeyF1 + 1)
      else if k = KeyHome then str ''Home''
      else if k = KeyEnd then str ''End''
      else if k = KeyInsert then str ''Insert''
      else if k = KeyDelete then str ''Delete''
      else if k = KeyPgUp then str ''PgUp''
      else if k = KeyPgDn then str ''PgDn''
      else if k = KeyUp then str ''Up''
      else if k = KeyDown then str ''Down''
      else if k = KeyLeft then str ''Left''
      else if k = KeyRight then str ''Right''
      else [])"

record EventKey =
  evKey :: int  \<comment> \<open>\<^verbatim>\<open>ev.Key()\<close>\<close>
  evRune :: rune  \<comment> \<open>\<^verbatim>\<open>ev.Rune()\<close>\<close>
  evMods :: ModMask  \<comment> \<open>\<^verbatim>\<open>ev.Modifiers()\<close>\<close>

datatype Event = KeyEvent EventKey | ResizeEvent | OtherEvent

section \<open>The keyboard layout\<close>

record Key =
  Label :: gostring
  X :: int
  Y :: int
  W :: int
  H :: int

fun addRow_from :: "int \<Rightarrow> gostring list \<Rightarrow> int \<Rightarrow> Key list" where
  \<comment> \<open>the loop of \<open>addRow\<close>, from column \<open>x\<close>\<close>
  "addRow_from x [] y = []"
| "addRow_from x (L # labels) y =
     (let w = len L + 2
      in \<lparr>Label = L, X = x, Y = y, W = w, H = 3\<rparr> # addRow_from (x + (w + 1)) labels y)"

definition addRow :: "Key list \<Rightarrow> string list \<Rightarrow> int \<Rightarrow> Key list" where
  \<comment> \<open>the closure appends to \<open>out\<close>\<close>
  "addRow out labels y = out @ addRow_from 0 (map str labels) y"

definition keycaps :: "string \<Rightarrow> string list" where
  \<comment> \<open>one label per character: \<open>keycaps ''QW''\<close> is the two labels \<open>Q\<close> and \<open>W\<close>;
      below, \<open>CHR 0x5C\<close> is the backslash and \<open>CHR 0x27\<close> the apostrophe\<close>
  "keycaps cs = map (\<lambda>c. [c]) cs"

definition initKeys :: "Key list" where
  "initKeys =
     (let out = [];
          out = addRow out ([''Esc'', ''F1'', ''F2'', ''F3'', ''F4'', ''F5'', ''F6'', ''F7'',
                  ''F8'', ''F9'', ''F10'', ''F11'', ''F12'']) 0;
          out = addRow out (keycaps ''`1234567890-='' @ [''Backspace'']) 4;
          out = addRow out ([''Tab''] @ keycaps ''QWERTYUIOP[]'' @ keycaps [CHR 0x5C]) 8;
          out = addRow out ([''CapsLock''] @ keycaps ''ASDFGHJKL;'' @ keycaps [CHR 0x27] @
                  [''Enter'']) 12;
          out = addRow out ([''Shift''] @ keycaps ''ZXCVBNM,./'' @ [''Shift'']) 16;
          out = addRow out [''Fn'', ''Ctrl'', ''Win'', ''Alt'', ''Space'', ''Alt'', ''Win'',
                  ''Menu'', ''Ctrl''] 20;
          out = addRow out [''Insert'', ''Home'', ''PgUp''] 24;
          out = addRow out [''Delete'', ''End'', ''PgDn''] 28;
          out = addRow out [''Left'', ''Down'', ''Right'', ''Up''] 32
      in out)"

definition sepY :: "Key list \<Rightarrow> int option" where
  \<comment> \<open>\<^verbatim>\<open>keys[len(keys)-1].Y + keys[len(keys)-1].H\<close>; the index is out of range, and Go
      panics, when there is no key\<close>
  "sepY keys = (if keys = [] then None else Some (Y (last keys) + H (last keys)))"

section \<open>Drawing\<close>

text \<open>
  The program writes to the terminal through four calls of the screen; a frame is the
  list of calls in the order the program makes them.
\<close>

datatype style = StyleDefault | BackgroundBlue

datatype call = Clear | SetContent int int rune style | Show | Sync

definition go_div :: "int \<Rightarrow> int \<Rightarrow> int" where
  \<comment> \<open>Go's integer division rounds towards zero\<close>
  "go_div a b = (if (a < 0) = (b < 0) then \<bar>a\<bar> div \<bar>b\<bar> else - (\<bar>a\<bar> div \<bar>b\<bar>))"

fun range_from :: "int \<Rightarrow> gostring \<Rightarrow> (int \<times> rune) list" where
  \<comment> \<open>\<^verbatim>\<open>for i, r := range s\<close>: each rune with the byte offset it starts at\<close>
  "range_from i [] = []"
| "range_from i (r # rs) = (i, r) # range_from (i + utf8_width r) rs"

definition drawKey :: "Key \<Rightarrow> style \<Rightarrow> call list" where
  "drawKey k st =
     concat (map (\<lambda>dx. map (\<lambda>dy. SetContent (X k + dx) (Y k + dy) 32 st) [0..H k - 1])
       [0..W k - 1]) @
     (let start = X k + go_div (W k - len (Label k)) 2
      in map (\<lambda>(i, r). SetContent (start + i) (Y k) r st) (range_from 0 (Label k)))"

fun drawLogs :: "int \<Rightarrow> int \<Rightarrow> int \<Rightarrow> gostring list \<Rightarrow> call list" where
  \<comment> \<open>the loop over \<open>logs\<close>, from index \<open>i\<close>; a line stops at the first rune whose
      offset reaches the width\<close>
  "drawLogs w y i [] = []"
| "drawLogs w y i (line # rest) =
     map (\<lambda>(j, r). SetContent j (y + 1 + i) r StyleDefault)
       (takeWhile (\<lambda>(j, r). \<not> j \<ge> w) (range_from 0 line)) @
     drawLogs w y (i + 1) rest"

definition drawAll ::
  "int \<Rightarrow> Key list \<Rightarrow> gostring list \<Rightarrow> (gostring \<Rightarrow> bool) \<Rightarrow> call list option" where
  \<comment> \<open>\<open>w\<close> is the width \<^verbatim>\<open>s.Size()\<close> reports\<close>
  "drawAll w keys logs pressed =
     (case sepY keys of
        None \<Rightarrow> None
      | Some y \<Rightarrow>
          Some ([Clear] @
            concat (map (\<lambda>k. if pressed (Label k) then drawKey k BackgroundBlue
                              else drawKey k StyleDefault) keys) @
            map (\<lambda>x. SetContent x y 45 StyleDefault) [0..w - 1] @
            drawLogs w y 0 logs))"

section \<open>Classifying a key event\<close>

definition labelFromEvent :: "unicode \<Rightarrow> EventKey \<Rightarrow> gostring" where
  "labelFromEvent U ev =
     (let k = evKey ev in
      if k = KeyEscape then str ''Esc''
      else if k = KeyEnter then str ''Enter''
      else if k = KeyTab then str ''Tab''
      else if k = KeyBackspace \<or> k = KeyBackspace2 then str ''Backspace''
      else if (KeyF1 \<le> k \<and> k \<le> KeyF12) \<or>
              k \<in> {KeyHome, KeyEnd, KeyInsert, KeyDelete, KeyPgUp, KeyPgDn, KeyUp, KeyDown,
                   KeyLeft, KeyRight} then KeyNames k
      else if k = KeyRune then
        (if evRune ev = 32 then str ''Space''
         else strings_ToUpper U (string_of_rune (evRune ev)))
      else if k \<ge> KeyCtrlA \<and> k \<le> KeyCtrlZ then string_of_rune (65 + (k - KeyCtrlA))
      else str ''Key['' @ fmt_d k @ str '']'')"

definition modString :: "ModMask \<Rightarrow> gostring" where
  "modString m =
     (let parts = [];
          parts = (if m AND ModCtrl \<noteq> 0 then parts @ [str ''Ctrl''] else parts);
          parts = (if m AND ModAlt \<noteq> 0 then parts @ [str ''Alt''] else parts);
          parts = (if m AND ModShift \<noteq> 0 then parts @ [str ''Shift''] else parts)
      in if length parts = 0 then str ''None'' else strings_Join parts (str ''|''))"

section \<open>The session and the event loop\<close>

text \<open>
  The variables of \<open>main\<close>. \<open>pressed\<close> is a Go map to bool in which only \<open>true\<close> is
  ever stored: reading a label that is not in it gives \<open>false\<close>. The counters are Go
  ints; the loop returns at 5, far from the wrap-around.
\<close>

record session =
  logs :: "gostring list"
  pressed :: "gostring \<Rightarrow> bool"
  escCount :: int
  enterCount :: int
  spaceCount :: int

text \<open>
  What the surroundings give one turn of the loop: the size \<^verbatim>\<open>s.Size()\<close> reports and
  the time \<^verbatim>\<open>time.Now()\<close> reports. Sizes are Go ints, which a count of rows or
  columns never brings near their bounds; they are modelled as integers.
\<close>

record env =
  scrW :: int
  scrH :: int
  now :: clock

datatype outcome = Continue session | Return session | Panic

definition exitLogic :: "EventKey \<Rightarrow> session \<Rightarrow> session \<times> bool" where
  \<comment> \<open>the first switch of the loop: the counters after it, and whether \<open>main\<close> returned\<close>
  "exitLogic ev s =
     (if evKey ev = KeyEscape then
        (let s = s\<lparr>escCount := escCount s + 1\<rparr> in (s, escCount s \<ge> 5))
      else if evKey ev = KeyEnter then
        (let s = s\<lparr>enterCount := enterCount s + 1\<rparr> in (s, enterCount s \<ge> 5))
      else if evKey ev = KeyRune then
        (if evRune ev = 32 then
           (let s = s\<lparr>spaceCount := spaceCount s + 1\<rparr> in (s, spaceCount s \<ge> 5))
         else (s, False))
      else (s, False))"

definition ctrlHeld :: "EventKey \<Rightarrow> bool" where
  \<comment> \<open>the test in front of \<^verbatim>\<open>pressed["Ctrl"] = true\<close>\<close>
  "ctrlHeld ev =
     (evMods ev AND ModCtrl \<noteq> 0 \<or> (evKey ev \<ge> KeyCtrlA \<and> evKey ev \<le> KeyCtrlZ))"

definition markPressed ::
  "unicode \<Rightarrow> EventKey \<Rightarrow> gostring \<Rightarrow> (gostring \<Rightarrow> bool) \<Rightarrow> (gostring \<Rightarrow> bool)" where
  "markPressed U ev mainLabel p =
     (let p = p(mainLabel := True);
          p = (if ctrlHeld ev then p(str ''Ctrl'' := True) else p);
          p = (if evMods ev AND ModAlt \<noteq> 0 then p(str ''Alt'' := True) else p);
          p = (if evMods ev AND ModShift \<noteq> 0 then p(str ''Shift'' := True) else p);
          p = (if evKey ev = KeyRune then
                 (let r = evRune ev in
                  if IsLetter U r \<and> IsUpper U r \<and> evMods ev AND ModShift = 0
                  then p(str ''CapsLock'' := True) else p)
               else p)
      in p)"

definition logLine :: "clock \<Rightarrow> gostring \<Rightarrow> EventKey \<Rightarrow> gostring" where
  \<comment> \<open>\<^verbatim>\<open>Sprintf("%s | %-7s | Code=%3d | Mods=%s", ts, mainLabel, code, mods)\<close>\<close>
  "logLine t mainLabel ev =
     (let ts = format_time t;
          code = evKey ev;
          mods = modString (evMods ev)
      in ts @ str '' | '' @ pad_right 7 mainLabel @ str '' | Code='' @ pad_left 3 (fmt_d code) @
         str '' | Mods='' @ mods)"

definition trim :: "int \<Rightarrow> gostring list \<Rightarrow> gostring list" where
  "trim maxLines ls =
     (if maxLines \<le> 0 then []
      else if int (length ls) > maxLines then drop (nat (int (length ls) - maxLines)) ls
      else ls)"

definition handleKey ::
  "unicode \<Rightarrow> Key list \<Rightarrow> env \<Rightarrow> EventKey \<Rightarrow> session \<Rightarrow> outcome \<times> call list" where
  "handleKey U keys e ev s =
     (case exitLogic ev s of
        (s, True) \<Rightarrow> (Return s, [])
      | (s, False) \<Rightarrow>
          (let mainLabel = labelFromEvent U ev;
               s = s\<lparr>pressed := markPressed U ev mainLabel (pressed s)\<rparr>;
               s = s\<lparr>logs := logs s @ [logLine (now e) mainLabel ev]\<rparr>
           in case sepY keys of
                None \<Rightarrow> (Panic, [])
              | Some y \<Rightarrow>
                  (let maxLines = scrH e - y - 1;
                       s = s\<lparr>logs := trim maxLines (logs s)\<rparr>
                   in case drawAll (scrW e) keys (logs s) (pressed s) of
                        None \<Rightarrow> (Panic, [])
                      | Some cs \<Rightarrow> (Continue s, cs @ [Show]))))"

definition step ::
  "unicode \<Rightarrow> Key list \<Rightarrow> env \<Rightarrow> Event \<Rightarrow> session \<Rightarrow> outcome \<times> call list" where
  \<comment> \<open>one turn of the loop, on the event \<^verbatim>\<open>PollEvent\<close> gave\<close>
  "step U keys e ev s =
     (case ev of
        KeyEvent k \<Rightarrow> handleKey U keys e k s
      | ResizeEvent \<Rightarrow> (Continue s, [Sync])
      | OtherEvent \<Rightarrow> (Continue s, []))"

fun run ::
  "unicode \<Rightarrow> Key list \<Rightarrow> (env \<times> Event) list \<Rightarrow> session \<Rightarrow> outcome \<times> call list" where
  \<comment> \<open>the loop over the events that arrive, each with the surroundings of its turn;
      \<open>Continue\<close> when they are used up and the loop waits for the next\<close>
  "run U keys [] s = (Continue s, [])"
| "run U keys ((e, ev) # rest) s =
     (case step U keys e ev s of
        (Continue s', cs) \<Rightarrow> (case run U keys rest s' of (r, cs') \<Rightarrow> (r, cs @ cs'))
      | (r, cs) \<Rightarrow> (r, cs))"

definition init :: session where
  "init = \<lparr>logs = [], pressed = (\<lambda>_. False), escCount = 0, enterCount = 0, spaceCount = 0\<rparr>"

definition main :: "unicode \<Rightarrow> int \<Rightarrow> (env \<times> Event) list \<Rightarrow> outcome \<times> call list" where
  \<comment> \<open>\<open>w0\<close> is the width of the screen at the first drawing\<close>
  "main U w0 evs =
     (let keys = initKeys; s = init
      in case drawAll w0 keys (logs s) (pressed s) of
           None \<Rightarrow> (Panic, [])
         | Some cs \<Rightarrow> (case run U keys evs s of (r, cs') \<Rightarrow> (r, cs @ [Show] @ cs')))"

declare run.simps [simp del]

text \<open>The input each exit counter counts.\<close>

definition isEscape :: "EventKey \<Rightarrow> bool" where
  "isEscape ev = (evKey ev = KeyEscape)"

definition isEnter :: "EventKey \<Rightarrow> bool" where
  "isEnter ev = (evKey ev = KeyEnter)"

definition isSpace :: "EventKey \<Rightarrow> bool" where
  "isSpace ev = (evKey ev = KeyRune \<and> evRune ev = 32)"

definition hits :: "(EventKey \<Rightarrow> bool) \<Rightarrow> Event \<Rightarrow> bool" where
  \<comment> \<open>the event is a key event of the kind \<open>P\<close>\<close>
  "hits P ev = (case ev of KeyEvent k \<Rightarrow> P k | _ \<Rightarrow> False)"

definition tally :: "(EventKey \<Rightarrow> bool) \<Rightarrow> (env \<times> Event) list \<Rightarrow> int" where
  \<comment> \<open>how many events of a sequence are key events of the kind \<open>P\<close>\<close>
  "tally P evs = int (length (filter (\<lambda>x. hits P (snd x)) evs))"

text \<open>A sequence of key events, and the log lines the loop writes for them.\<close>

definition keyEvents :: "(env \<times> EventKey) list \<Rightarrow> (env \<times> Event) list" where
  "keyEvents ks = map (\<lambda>(e, k). (e, KeyEvent k)) ks"

definition logLines :: "unicode \<Rightarrow> (env \<times> EventKey) list \<Rightarrow> gostring list" where
  "logLines U ks = map (\<lambda>(e, k). logLine (now e) (labelFromEvent U k) k) ks"

section \<open>Inputs used to run the model\<close>

definition noon :: clock where
  "noon = \<lparr>hour = 12, minute = 0, second = 0\<rparr>"

definition typed :: "int \<Rightarrow> nat \<Rightarrow> (env \<times> EventKey) list" where
  \<comment> \<open>the letters \<open>a\<close>, \<open>b\<close>, \<open>c\<close>, ... typed one a second on a screen of \<open>h\<close> rows\<close>
  "typed h n = map (\<lambda>i. (\<lparr>scrW = 80, scrH = h, now = noon\<lparr>second := i\<rparr>\<rparr>,
                         \<lparr>evKey = KeyRune, evRune = 97 + int i, evMods = 0\<rparr>)) [0..<n]"

definition screen40 :: env where
  "screen40 = \<lparr>scrW = 80, scrH = 40, now = noon\<rparr>"

definition escKey :: EventKey where
  "escKey = \<lparr>evKey = KeyEscape, evRune = 0, evMods = 0\<rparr>"

definition presses :: "EventKey \<Rightarrow> nat \<Rightarrow> (env \<times> Event) list" where
  \<comment> \<open>the same key, \<open>n\<close> times\<close>
  "presses k n = replicate n (screen40, KeyEvent k)"

text \<open>The number a string of decimal digits, with or without a sign, stands for.\<close>

definition digits_value :: "gostring \<Rightarrow> nat" where
  "digits_value s = foldl (\<lambda>a d. 10 * a + nat (d - 48)) 0 s"

definition read_d :: "gostring \<Rightarrow> int" where
  "read_d s = (case s of [] \<Rightarrow> 0
               | c # cs \<Rightarrow> if c = 45 then - int (digits_value cs) else int (digits_value s))"

definition bsKey :: EventKey where
  "bsKey = \<lparr>evKey = KeyBackspace, evRune = 8, evMods = 0\<rparr>"

definition threeLines :: session where
  "threeLines = init\<lparr>logs := [str ''one'', str ''two'', str ''three'']\<rparr>"

definition screen37 :: env where
  "screen37 = \<lparr>scrW = 80, scrH = 37, now = noon\<rparr>"

section \<open>Facts about the model\<close>

lemma addRow_from_all:
  "(\<And>x L. Q \<lparr>Label = L, X = x, Y = y, W = len L + 2, H = 3\<rparr>) \<Longrightarrow>
   \<forall>k\<in>set (addRow_from x0 ls y). Q k"
  by (induction ls arbitrary: x0) (simp_all add: Let_def)

lemma addRow_all:
  "\<forall>k\<in>set out. Q k \<Longrightarrow> (\<And>x L. Q \<lparr>Label = L, X = x, Y = y, W = len L + 2, H = 3\<rparr>) \<Longrightarrow>
   \<forall>k\<in>set (addRow out ls y). Q k"
  using addRow_from_all [of Q y 0 "map str ls"] by (auto simp: addRow_def)

lemma sepY_addRow:
  assumes "ls \<noteq> []"
  shows "sepY (addRow out ls y) = Some (y + 3)"
proof -
  have ne: "addRow_from 0 (map str ls) y \<noteq> []"
    using assms by (cases ls) (simp_all add: Let_def)
  then have "last (addRow_from 0 (map str ls) y) \<in> set (addRow_from 0 (map str ls) y)"
    by simp
  then have "Y (last (addRow_from 0 (map str ls) y)) = y \<and>
             H (last (addRow_from 0 (map str ls) y)) = 3"
    using addRow_from_all [of "\<lambda>k. Y k = y \<and> H k = 3" y 0 "map str ls"] by simp
  then show ?thesis using ne by (simp add: sepY_def addRow_def)
qed

lemma sepY_initKeys: "sepY initKeys = Some 35"
  by (simp add: initKeys_def Let_def sepY_addRow)

lemma initKeys_rows: "\<forall>k\<in>set initKeys. 0 \<le> Y k \<and> Y k + H k - 1 \<le> 34"
  unfolding initKeys_def Let_def by (intro addRow_all) simp_all

lemma exitLogic_frame:
  "pressed (fst (exitLogic ev s)) = pressed s" "logs (fst (exitLogic ev s)) = logs s"
  by (simp_all add: exitLogic_def Let_def)

lemma drawAll_Some: "sepY keys = Some y \<Longrightarrow> \<exists>cs. drawAll w keys ls p = Some cs"
  by (simp add: drawAll_def)

text \<open>The outcome of a key event, without the frame that is drawn.\<close>

lemma handleKey_fst:
  "fst (handleKey U keys e ev s) =
     (if snd (exitLogic ev s) then Return (fst (exitLogic ev s))
      else case sepY keys of
             None \<Rightarrow> Panic
           | Some y \<Rightarrow>
               Continue ((fst (exitLogic ev s))
                 \<lparr>pressed := markPressed U ev (labelFromEvent U ev) (pressed s),
                  logs := trim (scrH e - y - 1)
                            (logs s @ [logLine (now e) (labelFromEvent U ev) ev])\<rparr>))"
proof (cases "exitLogic ev s")
  case (Pair s1 b)
  have fr: "pressed s1 = pressed s" "logs s1 = logs s"
    using exitLogic_frame [of ev s] Pair by simp_all
  show ?thesis
  proof (cases "sepY keys")
    case None
    then show ?thesis using Pair by (simp add: handleKey_def Let_def)
  next
    case (Some y)
    obtain cs where "drawAll (scrW e) keys
        (trim (scrH e - y - 1) (logs s @ [logLine (now e) (labelFromEvent U ev) ev]))
        (markPressed U ev (labelFromEvent U ev) (pressed s)) = Some cs"
      using drawAll_Some [OF Some] by blast
    then show ?thesis using Pair Some fr by (simp add: handleKey_def Let_def)
  qed
qed

lemma handleKey_Return:
  "snd (exitLogic ev s) \<Longrightarrow> handleKey U keys e ev s = (Return (fst (exitLogic ev s)), [])"
  by (cases "exitLogic ev s") (simp add: handleKey_def)

lemma step_key_fst: "fst (step U keys e (KeyEvent ev) s) = fst (handleKey U keys e ev s)"
  by (simp add: step_def)

lemma trim_alt: "trim c ls = (if c \<le> 0 then [] else drop (length ls - nat c) ls)"
proof -
  have "nat (int (length ls) - c) = length ls - nat c" if "0 < c"
    using that by linarith
  then show ?thesis by (simp add: trim_def)
qed

lemma trim_length: "int (length (trim c ls)) \<le> max 0 c"
  by (auto simp: trim_def)

lemma trim_trim_append: "trim c (trim c xs @ ys) = trim c (xs @ ys)"
proof (cases "c \<le> 0")
  case True
  then show ?thesis by (simp add: trim_alt)
next
  case False
  have "length xs + length ys - (length xs - nat c + nat c) + (length xs - nat c) =
        length xs + length ys - nat c"
    by linarith
  then show ?thesis using False by (simp add: trim_alt)
qed

lemma continue_logs:
  assumes "sepY keys = Some y" and "fst (step U keys e (KeyEvent ev) s) = Continue s'"
  shows "logs s' = trim (scrH e - y - 1) (logs s @ [logLine (now e) (labelFromEvent U ev) ev])"
  using assms by (auto simp: step_key_fst handleKey_fst split: if_splits)

lemma run_Nil_fst: "fst (run U keys [] s) = Continue s"
  by (simp add: run.simps)

lemma run_Cons_fst:
  "fst (run U keys ((e, ev) # rest) s) =
     (case fst (step U keys e ev s) of
        Continue s1 \<Rightarrow> fst (run U keys rest s1)
      | Return s1 \<Rightarrow> Return s1
      | Panic \<Rightarrow> Panic)"
  by (cases "step U keys e ev s") (auto simp: run.simps split: outcome.splits prod.splits)

lemma exitLogic_other:
  "\<not> isEscape ev \<Longrightarrow> \<not> isEnter ev \<Longrightarrow> \<not> isSpace ev \<Longrightarrow> exitLogic ev s = (s, False)"
  by (auto simp: exitLogic_def isEscape_def isEnter_def isSpace_def)

text \<open>The log after a run of key events on a screen whose height stays the same.\<close>

lemma run_keys_logs:
  assumes "sepY keys = Some y"
    and "\<forall>x\<in>set ks. scrH (fst x) = h"
    and "fst (run U keys (keyEvents ks) s) = Continue s'"
  shows "logs s' = (if ks = [] then logs s else trim (h - y - 1) (logs s @ logLines U ks))"
  using assms(2,3)
proof (induction ks arbitrary: s)
  case Nil
  then show ?case by (simp add: keyEvents_def run_Nil_fst)
next
  case (Cons x ks)
  obtain e k where x: "x = (e, k)" by (cases x)
  from Cons.prems(2) obtain s1 where
    s1: "fst (step U keys e (KeyEvent k) s) = Continue s1"
    and r: "fst (run U keys (keyEvents ks) s1) = Continue s'"
    by (auto simp: keyEvents_def x run_Cons_fst split: outcome.splits)
  have h: "scrH e = h" using Cons.prems(1) x by simp
  have l1: "logs s1 = trim (h - y - 1) (logs s @ [logLine (now e) (labelFromEvent U k) k])"
    using continue_logs [OF assms(1) s1] h by simp
  have "logs s' = (if ks = [] then logs s1 else trim (h - y - 1) (logs s1 @ logLines U ks))"
    using Cons.IH [OF _ r] Cons.prems(1) by simp
  then show ?case
    by (simp add: l1 x logLines_def trim_trim_append)
qed

lemma run_keys_Continue:
  assumes "sepY keys = Some y"
    and "\<forall>x\<in>set ks. \<not> isEscape (snd x) \<and> \<not> isEnter (snd x) \<and> \<not> isSpace (snd x)"
  shows "\<exists>s'. fst (run U keys (keyEvents ks) s) = Continue s'"
  using assms(2)
proof (induction ks arbitrary: s)
  case Nil
  then show ?case by (simp add: keyEvents_def run_Nil_fst)
next
  case (Cons x ks)
  obtain e k where x: "x = (e, k)" by (cases x)
  have "exitLogic k s = (s, False)"
    using Cons.prems x by (simp add: exitLogic_other)
  then obtain s1 where "fst (step U keys e (KeyEvent k) s) = Continue s1"
    using assms(1) by (simp add: step_key_fst handleKey_fst)
  moreover obtain s' where "fst (run U keys (keyEvents ks) s1) = Continue s'"
    using Cons.IH [of s1] Cons.prems by auto
  ultimately show ?case
    by (simp add: keyEvents_def x run_Cons_fst)
qed

lemma typed_no_exit:
  "\<forall>x\<in>set (typed h n). \<not> isEscape (snd x) \<and> \<not> isEnter (snd x) \<and> \<not> isSpace (snd x)"
  by (auto simp: typed_def isEscape_def isEnter_def isSpace_def key_defs)

lemma typed_height: "\<forall>x\<in>set (typed h n). scrH (fst x) = h"
  by (auto simp: typed_def)

lemma drawAll_separator:
  assumes "sepY keys = Some y" and "0 \<le> x" and "x < w"
  shows "\<exists>cs. drawAll w keys ls p = Some cs \<and> SetContent x y 45 StyleDefault \<in> set cs"
proof -
  have "x \<in> set [0..w - 1]" using assms(2,3) by simp
  then show ?thesis using assms(1) by (simp add: drawAll_def)
qed

lemma step_not_Panic: "sepY keys = Some y \<Longrightarrow> fst (step U keys e x s) \<noteq> Panic"
  by (cases x) (simp_all add: step_def handleKey_fst)

lemma exitLogic_counters:
  "escCount (fst (exitLogic ev s)) = escCount s + (if isEscape ev then 1 else 0)"
  "enterCount (fst (exitLogic ev s)) = enterCount s + (if isEnter ev then 1 else 0)"
  "spaceCount (fst (exitLogic ev s)) = spaceCount s + (if isSpace ev then 1 else 0)"
  by (simp_all add: exitLogic_def isEscape_def isEnter_def isSpace_def Let_def key_defs)

lemma exitLogic_returns:
  "snd (exitLogic ev s) \<longleftrightarrow>
     isEscape ev \<and> 5 \<le> escCount s + 1 \<or> isEnter ev \<and> 5 \<le> enterCount s + 1 \<or>
     isSpace ev \<and> 5 \<le> spaceCount s + 1"
  by (simp add: exitLogic_def isEscape_def isEnter_def isSpace_def Let_def key_defs)

text \<open>What one turn of the loop does to the counters, and when it returns.\<close>

lemma step_counters:
  assumes "fst (step U keys e x s) = r" and "r = Continue s' \<or> r = Return s'"
  shows "escCount s' = escCount s + (if hits isEscape x then 1 else 0)"
    and "enterCount s' = enterCount s + (if hits isEnter x then 1 else 0)"
    and "spaceCount s' = spaceCount s + (if hits isSpace x then 1 else 0)"
    and "r = Return s' \<longleftrightarrow>
           hits isEscape x \<and> 5 \<le> escCount s' \<or> hits isEnter x \<and> 5 \<le> enterCount s' \<or>
           hits isSpace x \<and> 5 \<le> spaceCount s'"
proof -
  show "escCount s' = escCount s + (if hits isEscape x then 1 else 0)"
    using assms
    by (cases x; cases "sepY keys")
       (auto simp: step_def handleKey_fst hits_def exitLogic_counters split: if_splits)
  show "enterCount s' = enterCount s + (if hits isEnter x then 1 else 0)"
    using assms
    by (cases x; cases "sepY keys")
       (auto simp: step_def handleKey_fst hits_def exitLogic_counters split: if_splits)
  show "spaceCount s' = spaceCount s + (if hits isSpace x then 1 else 0)"
    using assms
    by (cases x; cases "sepY keys")
       (auto simp: step_def handleKey_fst hits_def exitLogic_counters split: if_splits)
  show "r = Return s' \<longleftrightarrow>
           hits isEscape x \<and> 5 \<le> escCount s' \<or> hits isEnter x \<and> 5 \<le> enterCount s' \<or>
           hits isSpace x \<and> 5 \<le> spaceCount s'"
    using assms
    by (cases x; cases "sepY keys")
       (auto simp: step_def handleKey_fst hits_def exitLogic_counters exitLogic_returns
          split: if_splits)
qed

lemma run_counters:
  assumes "fst (run U keys evs s0) = Continue s"
  shows "escCount s = escCount s0 + tally isEscape evs \<and>
         enterCount s = enterCount s0 + tally isEnter evs \<and>
         spaceCount s = spaceCount s0 + tally isSpace evs \<and>
         (escCount s0 < 5 \<longrightarrow> escCount s < 5) \<and>
         (enterCount s0 < 5 \<longrightarrow> enterCount s < 5) \<and>
         (spaceCount s0 < 5 \<longrightarrow> spaceCount s < 5)"
  using assms
proof (induction evs arbitrary: s0)
  case Nil
  then show ?case by (simp add: run_Nil_fst tally_def)
next
  case (Cons a evs)
  obtain e x where a: "a = (e, x)" by (cases a)
  from Cons.prems obtain s1 where
    s1: "fst (step U keys e x s0) = Continue s1"
    and r: "fst (run U keys evs s1) = Continue s"
    by (auto simp: a run_Cons_fst split: outcome.splits)
  note c = step_counters [OF s1, of s1, simplified]
  have t: "tally P (a # evs) = (if hits P x then 1 else 0) + tally P evs" for P
    by (simp add: tally_def a)
  from Cons.IH [OF r] c show ?case
    unfolding t by (auto split: if_splits)
qed

lemma upd_True: "(q(a := True)) l \<longleftrightarrow> l = a \<or> q l"
  by simp

lemma markPressed_mono: "p l \<Longrightarrow> markPressed U ev lab p l"
  by (simp add: markPressed_def Let_def upd_True if_distribR del: fun_upd_apply)

lemma markPressed_label: "markPressed U ev lab p lab"
  by (simp add: markPressed_def Let_def upd_True if_distribR del: fun_upd_apply)

lemma step_pressed:
  assumes "fst (step U keys e x s) = r" and "r = Continue s' \<or> r = Return s'"
  shows "pressed s' =
           (case x of
              KeyEvent k \<Rightarrow>
                if r = Return s' then pressed s
                else markPressed U k (labelFromEvent U k) (pressed s)
            | _ \<Rightarrow> pressed s)"
  using assms
  by (cases x; cases "sepY keys")
     (auto simp: step_def handleKey_fst exitLogic_frame split: if_splits)

lemma alphabet: "str ''ABCDEFGHIJKLMNOPQRSTUVWXYZ'' = map (\<lambda>i. 65 + int i) [0..<26]"
  by code_simp

lemma alphabet_nth:
  assumes "1 \<le> k" and "k \<le> 26"
  shows "str ''ABCDEFGHIJKLMNOPQRSTUVWXYZ'' ! nat (k - 1) = 65 + (k - 1)"
proof -
  have "nat (k - 1) < 26" using assms by linarith
  then show ?thesis unfolding alphabet using assms by (simp add: nth_map_upt del: upt_Suc)
qed

lemma markPressed_iff:
  "markPressed U ev lab p l \<longleftrightarrow>
     l = lab \<or> (ctrlHeld ev \<and> l = str ''Ctrl'') \<or>
     (evMods ev AND ModAlt \<noteq> 0 \<and> l = str ''Alt'') \<or>
     (evMods ev AND ModShift \<noteq> 0 \<and> l = str ''Shift'') \<or>
     (evKey ev = KeyRune \<and> IsLetter U (evRune ev) \<and> IsUpper U (evRune ev) \<and>
        evMods ev AND ModShift = 0 \<and> l = str ''CapsLock'') \<or>
     p l"
  by (auto simp add: markPressed_def Let_def upd_True if_distribR simp del: fun_upd_apply)

lemma str_Ctrl: "str ''Ctrl'' = [67, 116, 114, 108]"
  by (simp add: str_def)

lemma KeyNames_not_Ctrl: "KeyNames k \<noteq> [67, 116, 114, 108]"
  by (simp add: KeyNames_def str_def)

lemma label_not_Ctrl: "labelFromEvent U ev \<noteq> str ''Ctrl''"
  unfolding str_Ctrl labelFromEvent_def Let_def
  by (simp add: KeyNames_not_Ctrl strings_ToUpper_def string_of_rune_def str_def)

lemma continue_pressed:
  assumes "fst (step U keys e (KeyEvent ev) s) = Continue s'"
  shows "pressed s' = markPressed U ev (labelFromEvent U ev) (pressed s)"
  using step_pressed [OF assms] by simp

lemma continue_exists:
  assumes "sepY keys = Some y" and "\<not> snd (exitLogic ev s)"
  shows "\<exists>s'. fst (step U keys e (KeyEvent ev) s) = Continue s'"
  using assms by (simp add: step_key_fst handleKey_fst)

lemma label_ctrl_letter:
  assumes "KeyCtrlA \<le> evKey ev" and "evKey ev \<le> KeyCtrlZ"
    and "evKey ev \<notin> {KeyBackspace, KeyTab, KeyEnter}"
  shows "labelFromEvent U ev = [str ''ABCDEFGHIJKLMNOPQRSTUVWXYZ'' ! nat (evKey ev - KeyCtrlA)]"
proof -
  have "labelFromEvent U ev = string_of_rune (65 + (evKey ev - KeyCtrlA))"
    using assms by (auto simp: labelFromEvent_def Let_def key_defs)
  also have "\<dots> = [65 + (evKey ev - 1)]"
    using assms by (simp add: string_of_rune_def key_defs)
  finally show ?thesis
    using alphabet_nth [of "evKey ev"] assms(1,2) by (simp add: key_defs)
qed

lemma digits_value_snoc: "digits_value (xs @ [d]) = 10 * digits_value xs + nat (d - 48)"
  by (simp add: digits_value_def)

lemma digits_value_decimal: "digits_value (decimal n) = n"
proof (induction n rule: decimal.induct)
  case (1 n)
  show ?case
  proof (cases "n < 10")
    case True
    then show ?thesis
      by (subst decimal.simps) (simp add: digits_value_def digit_def)
  next
    case False
    then have "digits_value (decimal n) = 10 * (n div 10) + n mod 10"
      using "1.IH" by (subst decimal.simps) (simp add: digits_value_snoc digit_def)
    then show ?thesis by simp
  qed
qed

lemma decimal_hd: "decimal n \<noteq> [] \<and> 48 \<le> hd (decimal n)"
proof (induction n rule: decimal.induct)
  case (1 n)
  show ?case
  proof (cases "n < 10")
    case True
    then show ?thesis by (subst (1 2) decimal.simps) (simp add: digit_def)
  next
    case False
    then show ?thesis using "1.IH" by (subst (1 2) decimal.simps) simp
  qed
qed

lemma read_d_fmt_d: "read_d (fmt_d i) = i"
proof (cases "i < 0")
  case True
  then show ?thesis by (simp add: fmt_d_def read_d_def digits_value_decimal)
next
  case False
  obtain c cs where d: "decimal (nat i) = c # cs" "48 \<le> c"
    using decimal_hd [of "nat i"] by (cases "decimal (nat i)") auto
  have "int (digits_value (c # cs)) = i"
    using digits_value_decimal [of "nat i"] False by (simp add: d(1))
  then show ?thesis using False d by (simp add: fmt_d_def read_d_def)
qed

lemma label_unrecognized:
  assumes "evKey ev \<notin> {KeyEscape, KeyEnter, KeyTab, KeyBackspace, KeyBackspace2, KeyHome, KeyEnd,
             KeyInsert, KeyDelete, KeyPgUp, KeyPgDn, KeyUp, KeyDown, KeyLeft, KeyRight}"
    and "\<not> (KeyF1 \<le> evKey ev \<and> evKey ev \<le> KeyF12)"
    and "evKey ev \<noteq> KeyRune"
    and "\<not> (KeyCtrlA \<le> evKey ev \<and> evKey ev \<le> KeyCtrlZ)"
  shows "labelFromEvent U ev = str ''Key['' @ fmt_d (evKey ev) @ str '']''"
  using assms by (auto simp: labelFromEvent_def Let_def)

lemma trim_last: "0 < c \<Longrightarrow> trim c (xs @ [l]) \<noteq> [] \<and> last (trim c (xs @ [l])) = l"
  by (auto simp: trim_alt)



lemma pad_right_length: "length (pad_right n s) = max n (length s)"
  by (simp add: pad_right_def)

lemma format_time_length: "length (format_time t) = 8"
  by (simp add: format_time_def two_digits_def str_def)

section \<open>The log buffer\<close>



section \<open>The fixed layout\<close>

text \<open>
  C2, as the claim states it, fails: the last row of keys starts at row 32 and is 3 rows
  high, so the separator is at row 35, not 36. On a screen of 40 rows, after the 6 key
  events the claim counts (40 - 37 + 3), the log holds 4 lines, not 3.
\<close>

theorem fixed_layout_capacity_counterexample:
  "sepY initKeys \<noteq> Some 36 \<and>
   (\<exists>s'. fst (run ascii_unicode initKeys (keyEvents (typed 40 (nat (40 - 37 + 3)))) init) =
            Continue s' \<and>
          int (length (logs s')) \<noteq> 40 - 37)"
proof -
  obtain s' where c: "fst (run ascii_unicode initKeys (keyEvents (typed 40 6)) init) = Continue s'"
    using run_keys_Continue [OF sepY_initKeys typed_no_exit] by blast
  have "logs s' = trim 4 (logLines ascii_unicode (typed 40 6))"
    using run_keys_logs [OF sepY_initKeys typed_height c]
    by (simp add: typed_def init_def)
  moreover have "length (logLines ascii_unicode (typed 40 6)) = 6"
    by (simp add: logLines_def typed_def)
  ultimately have "length (logs s') = 4"
    by (simp add: trim_alt)
  with c show ?thesis by (auto simp: sepY_initKeys)
qed

text \<open>
  C2, amended. For the layout of \<open>initKeys\<close> the keys lie in rows 0 to 34 and the
  separator is drawn in row 35. On a screen of \<open>h \<ge> 36\<close> rows the log has room for
  \<open>h - 36\<close> lines: after \<open>h - 36 + 3\<close> key events that leave the session running, the log
  is the lines of these events without the first three, \<open>h - 36\<close> lines in all.
\<close>

theorem fixed_layout_capacity:
  assumes "36 \<le> h"
    and "\<forall>x\<in>set ks. scrH (fst x) = h"
    and "int (length ks) = h - 36 + 3"
    and "fst (run U initKeys (keyEvents ks) s) = Continue s'"
  shows "sepY initKeys = Some 35 \<and>
         (\<forall>k\<in>set initKeys. 0 \<le> Y k \<and> Y k + H k - 1 \<le> 34) \<and>
         (\<forall>w ls p x. 0 \<le> x \<and> x < w \<longrightarrow>
            (\<exists>cs. drawAll w initKeys ls p = Some cs \<and> SetContent x 35 45 StyleDefault \<in> set cs)) \<and>
         logs s' = drop 3 (logLines U ks) \<and>
         int (length (logs s')) = h - 36"
proof -
  have n: "ks \<noteq> []" "length (logLines U ks) = length ks"
    using assms(1,3) by (auto simp: logLines_def)
  have "logs s' = trim (h - 36) (logs s @ logLines U ks)"
    using run_keys_logs [OF sepY_initKeys assms(2,4)] n by simp
  also have "\<dots> = drop 3 (logLines U ks)"
  proof (cases "h = 36")
    case True
    then show ?thesis using assms(3) n by (simp add: trim_alt)
  next
    case False
    have "length (logs s) + length ks - nat (h - 36) = length (logs s) + 3"
      using assms(1,3) by linarith
    then show ?thesis using False assms(1) n by (simp add: trim_alt)
  qed
  finally have l: "logs s' = drop 3 (logLines U ks)" .
  have "int (length ks - 3) = h - 36"
    using assms(1,3) by linarith
  then have "int (length (logs s')) = h - 36"
    unfolding l using n by simp
  with l show ?thesis
    using sepY_initKeys initKeys_rows drawAll_separator [OF sepY_initKeys] by blast
qed

text \<open>On a screen of 38 rows, five letters leave the lines of the last two.\<close>

theorem fixed_layout_capacity_witness:
  "\<exists>s'. fst (run ascii_unicode initKeys (keyEvents (typed 38 5)) init) = Continue s' \<and>
        logs s' = [str ''12:00:03 | D       | Code=256 | Mods=None'',
                   str ''12:00:04 | E       | Code=256 | Mods=None'']"
proof -
  obtain s' where c: "fst (run ascii_unicode initKeys (keyEvents (typed 38 5)) init) = Continue s'"
    using run_keys_Continue [OF sepY_initKeys typed_no_exit] by blast
  have len: "int (length (typed 38 5)) = 38 - 36 + 3"
    by (simp add: typed_def)
  have "drop 3 (logLines ascii_unicode (typed 38 5)) =
          [str ''12:00:03 | D       | Code=256 | Mods=None'',
           str ''12:00:04 | E       | Code=256 | Mods=None'']"
    by code_simp
  with fixed_layout_capacity [OF _ typed_height len c] c show ?thesis
    by auto
qed

section \<open>The exit counters\<close>

text \<open>
  C3. Let the session still run after the events \<open>evs\<close>, in the state \<open>s\<close>. Each counter
  then holds the number of its own inputs among \<open>evs\<close> (Escape keys, Enter keys, space
  runes), so it never decreases and nothing else moves it, and it is below 5. The next
  event adds one to the counter whose input it is and nothing to the others, and the
  loop returns on it exactly when one of the counters is 5 afterwards.
\<close>

theorem exit_counters:
  assumes "fst (run U keys evs init) = Continue s"
    and "fst (step U keys e x s) = r"
    and "r = Continue s' \<or> r = Return s'"
  shows "escCount s = tally isEscape evs \<and> enterCount s = tally isEnter evs \<and>
         spaceCount s = tally isSpace evs \<and>
         escCount s < 5 \<and> enterCount s < 5 \<and> spaceCount s < 5 \<and>
         escCount s' = escCount s + (if hits isEscape x then 1 else 0) \<and>
         enterCount s' = enterCount s + (if hits isEnter x then 1 else 0) \<and>
         spaceCount s' = spaceCount s + (if hits isSpace x then 1 else 0) \<and>
         (r = Return s' \<longleftrightarrow> escCount s' = 5 \<or> enterCount s' = 5 \<or> spaceCount s' = 5)"
proof -
  note inv = run_counters [OF assms(1)]
  note c = step_counters [OF assms(2,3)]
  have i: "escCount s = tally isEscape evs" "enterCount s = tally isEnter evs"
    "spaceCount s = tally isSpace evs" "escCount s < 5" "enterCount s < 5" "spaceCount s < 5"
    using inv by (simp_all add: init_def)
  have "r = Return s' \<longleftrightarrow> escCount s' = 5 \<or> enterCount s' = 5 \<or> spaceCount s' = 5"
    unfolding c(4) using c(1-3) i(4-6) by (auto split: if_splits)
  with i c(1-3) show ?thesis by blast
qed

text \<open>Four Escape keys leave the session running; the fifth makes the loop return.\<close>

theorem exit_counters_witness:
  "\<exists>s s'. fst (run ascii_unicode initKeys (presses escKey 4) init) = Continue s \<and>
     fst (step ascii_unicode initKeys screen40 (KeyEvent escKey) s) = Return s' \<and>
     escCount s = 4 \<and> escCount s' = 5 \<and> enterCount s' = 0 \<and> spaceCount s' = 0"
proof -
  have e: "exitLogic escKey s = (s\<lparr>escCount := escCount s + 1\<rparr>, 5 \<le> escCount s + 1)" for s
    by (simp add: exitLogic_def escKey_def Let_def)
  obtain s where s: "fst (run ascii_unicode initKeys (presses escKey 4) init) = Continue s"
    by (simp add: presses_def numeral_eq_Suc run_Cons_fst run_Nil_fst step_key_fst handleKey_fst
        sepY_initKeys e init_def)
  obtain r where r: "fst (step ascii_unicode initKeys screen40 (KeyEvent escKey) s) = r"
    by simp
  have t: "tally isEscape (presses escKey 4) = 4" "tally isEnter (presses escKey 4) = 0"
    "tally isSpace (presses escKey 4) = 0"
    by (simp_all add: tally_def presses_def hits_def isEscape_def isEnter_def isSpace_def
        escKey_def key_defs)
  have h: "hits isEscape (KeyEvent escKey)" "\<not> hits isEnter (KeyEvent escKey)"
    "\<not> hits isSpace (KeyEvent escKey)"
    by (simp_all add: hits_def isEscape_def isEnter_def isSpace_def escKey_def key_defs)
  have "r \<noteq> Panic"
    using r step_not_Panic [OF sepY_initKeys] by blast
  then obtain s' where s': "r = Continue s' \<or> r = Return s'"
    by (cases r) auto
  from exit_counters [OF s r s'] t h
  have "escCount s = 4" "escCount s' = 5" "enterCount s' = 0" "spaceCount s' = 0" "r = Return s'"
    by simp_all
  with s r show ?thesis by blast
qed

section \<open>The pressed set\<close>

text \<open>
  C4. Whatever the event and the state, every label that is pressed before a turn of the
  loop is pressed after it, also when the loop returns: no turn takes a label out.
\<close>

theorem pressed_only_grows:
  assumes "fst (step U keys e x s) = r" and "r = Continue s' \<or> r = Return s'"
  shows "{l. pressed s l} \<subseteq> {l. pressed s' l}"
  using step_pressed [OF assms]
  by (cases x) (auto simp: markPressed_mono split: if_splits)

text \<open>With \<open>A\<close> pressed, Shift and \<open>b\<close> add \<open>B\<close> and \<open>Shift\<close> and keep \<open>A\<close>.\<close>

theorem pressed_only_grows_witness:
  "\<exists>s'. fst (step ascii_unicode initKeys screen40
              (KeyEvent \<lparr>evKey = KeyRune, evRune = 98, evMods = ModShift\<rparr>)
              (init\<lparr>pressed := (\<lambda>l. l = str ''A'')\<rparr>)) = Continue s' \<and>
        pressed s' (str ''A'') \<and> pressed s' (str ''B'') \<and> pressed s' (str ''Shift'')"
proof -
  let ?k = "\<lparr>evKey = KeyRune, evRune = 98, evMods = ModShift\<rparr>"
  let ?s = "init\<lparr>pressed := (\<lambda>l. l = str ''A'')\<rparr>"
  have lab: "labelFromEvent ascii_unicode ?k = str ''B''"
    by (simp add: labelFromEvent_def key_defs strings_ToUpper_def string_of_rune_def
        ascii_unicode_def str_def)
  have c: "fst (step ascii_unicode initKeys screen40 (KeyEvent ?k) ?s) =
        Continue (?s\<lparr>pressed := markPressed ascii_unicode ?k (str ''B'') (pressed ?s),
                     logs := trim (scrH screen40 - 35 - 1)
                        (logs ?s @ [logLine (now screen40) (str ''B'') ?k])\<rparr>)"
    (is "_ = Continue ?s'")
  proof -
    have "exitLogic ?k ?s = (?s, False)"
      by (simp add: exitLogic_def key_defs)
    then show ?thesis
      by (simp add: step_key_fst handleKey_fst sepY_initKeys lab)
  qed
  have "pressed ?s' (str ''B'')" "pressed ?s' (str ''Shift'')"
    by (simp_all add: markPressed_def Let_def upd_True if_distribR mod_defs del: fun_upd_apply)
  moreover have "pressed ?s' (str ''A'')"
    using pressed_only_grows [OF c] by auto
  ultimately show ?thesis using c by blast
qed

section \<open>Returning from the loop\<close>

text \<open>
  C9. The loop returns on a key event exactly when the event is the input of a counter
  and brings that counter to 5 (or beyond). When it returns, it has made no call to the
  screen for this event, and the pressed set and the log are what they were before it:
  the event marks no label and writes no line.
\<close>

theorem termination_atomic:
  "((\<exists>s'. fst (step U keys e (KeyEvent ev) s) = Return s') \<longleftrightarrow>
      isEscape ev \<and> 5 \<le> escCount s + 1 \<or> isEnter ev \<and> 5 \<le> enterCount s + 1 \<or>
      isSpace ev \<and> 5 \<le> spaceCount s + 1) \<and>
   (\<forall>s'. fst (step U keys e (KeyEvent ev) s) = Return s' \<longrightarrow>
      snd (step U keys e (KeyEvent ev) s) = [] \<and> pressed s' = pressed s \<and> logs s' = logs s)"
proof -
  have a: "(\<exists>s'. fst (step U keys e (KeyEvent ev) s) = Return s') \<longleftrightarrow> snd (exitLogic ev s)"
    by (cases "sepY keys") (auto simp: step_key_fst handleKey_fst)
  have b: "snd (step U keys e (KeyEvent ev) s) = [] \<and> pressed s' = pressed s \<and> logs s' = logs s"
    if "fst (step U keys e (KeyEvent ev) s) = Return s'" for s'
  proof -
    have x: "snd (exitLogic ev s)" using a that by blast
    then have "step U keys e (KeyEvent ev) s = (Return (fst (exitLogic ev s)), [])"
      by (simp add: step_def handleKey_Return)
    with that show ?thesis by (auto simp: exitLogic_frame)
  qed
  show ?thesis using a b unfolding exitLogic_returns by blast
qed

text \<open>The fifth Escape key: the log and the pressed set stay, nothing is drawn.\<close>

theorem termination_atomic_witness:
  "\<exists>s'. step ascii_unicode initKeys screen40 (KeyEvent escKey)
            (init\<lparr>escCount := 4, logs := [str ''one''], pressed := (\<lambda>l. l = str ''Esc'')\<rparr>) =
            (Return s', []) \<and>
         logs s' = [str ''one''] \<and> pressed s' = (\<lambda>l. l = str ''Esc'') \<and> escCount s' = 5"
proof -
  let ?s = "init\<lparr>escCount := 4, logs := [str ''one''], pressed := (\<lambda>l. l = str ''Esc'')\<rparr>"
  have "isEscape escKey \<and> 5 \<le> escCount ?s + 1"
    by (simp add: isEscape_def escKey_def)
  with termination_atomic [of ascii_unicode initKeys screen40 escKey ?s]
  obtain s' where r: "fst (step ascii_unicode initKeys screen40 (KeyEvent escKey) ?s) = Return s'"
    and u: "snd (step ascii_unicode initKeys screen40 (KeyEvent escKey) ?s) = []"
      "pressed s' = pressed ?s" "logs s' = logs ?s"
    by blast
  have "escCount s' = 5"
    using r by (auto simp: step_key_fst handleKey_fst exitLogic_def escKey_def split: if_splits)
  moreover have "step ascii_unicode initKeys screen40 (KeyEvent escKey) ?s = (Return s', [])"
    using r u(1) by (simp add: prod_eq_iff)
  ultimately show ?thesis using u by auto
qed

section \<open>The Ctrl modifier and the control codes\<close>

text \<open>
  C5, as the claim states it, fails: the key code 13 lies in the range of the control
  codes, where it is the code of the letter \<open>M\<close>, and the event that carries it is
  labelled \<open>Enter\<close>, not \<open>M\<close>.
\<close>

theorem ctrl_detection_counterexample:
  "KeyCtrlA \<le> 13 \<and> 13 \<le> KeyCtrlZ \<and>
   str ''ABCDEFGHIJKLMNOPQRSTUVWXYZ'' ! nat (13 - KeyCtrlA) = hd (str ''M'') \<and>
   labelFromEvent ascii_unicode \<lparr>evKey = 13, evRune = 13, evMods = 0\<rparr> = str ''Enter'' \<and>
   labelFromEvent ascii_unicode \<lparr>evKey = 13, evRune = 13, evMods = 0\<rparr> \<noteq> str ''M''"
  by (simp add: labelFromEvent_def key_defs str_def)

text \<open>
  C5, amended. For every key event that the loop handles to its end, \<open>Ctrl\<close> is pressed
  afterwards exactly when it was pressed before, or the modifier mask of the event holds
  Ctrl, or its key code lies in the range of the control codes of A to Z. An event whose
  key code lies in that range and is not the code of Backspace, Tab or Enter is labelled
  with the capital letter of that code, and that label is pressed afterwards.
\<close>

theorem ctrl_detection:
  assumes "fst (step U keys e (KeyEvent ev) s) = Continue s'"
  shows "(pressed s' (str ''Ctrl'') \<longleftrightarrow>
            pressed s (str ''Ctrl'') \<or> evMods ev AND ModCtrl \<noteq> 0 \<or>
            (KeyCtrlA \<le> evKey ev \<and> evKey ev \<le> KeyCtrlZ)) \<and>
         (KeyCtrlA \<le> evKey ev \<and> evKey ev \<le> KeyCtrlZ \<and>
          evKey ev \<notin> {KeyBackspace, KeyTab, KeyEnter} \<longrightarrow>
            labelFromEvent U ev = [str ''ABCDEFGHIJKLMNOPQRSTUVWXYZ'' ! nat (evKey ev - KeyCtrlA)] \<and>
            pressed s' (labelFromEvent U ev))"
proof -
  note p = continue_pressed [OF assms]
  have "str ''Ctrl'' \<noteq> str ''Alt''" "str ''Ctrl'' \<noteq> str ''Shift''" "str ''Ctrl'' \<noteq> str ''CapsLock''"
    by (simp_all add: str_def)
  then have "pressed s' (str ''Ctrl'') \<longleftrightarrow> pressed s (str ''Ctrl'') \<or> ctrlHeld ev"
    unfolding p markPressed_iff using label_not_Ctrl [of U ev] by auto
  moreover have "pressed s' (labelFromEvent U ev)"
    unfolding p by (rule markPressed_label)
  ultimately show ?thesis
    using label_ctrl_letter [of ev U] by (auto simp: ctrlHeld_def)
qed

text \<open>The control code 3, with an empty modifier mask: \<open>Ctrl\<close> and \<open>C\<close> are pressed.\<close>

theorem ctrl_detection_witness:
  "\<exists>s'. fst (step ascii_unicode initKeys screen40
              (KeyEvent \<lparr>evKey = 3, evRune = 3, evMods = 0\<rparr>) init) = Continue s' \<and>
        pressed s' (str ''Ctrl'') \<and> pressed s' (str ''C'') \<and>
        labelFromEvent ascii_unicode \<lparr>evKey = 3, evRune = 3, evMods = 0\<rparr> = str ''C''"
proof -
  let ?k = "\<lparr>evKey = 3, evRune = 3, evMods = 0\<rparr> :: EventKey"
  have "\<not> snd (exitLogic ?k init)"
    by (simp add: exitLogic_def key_defs)
  then obtain s' where c: "fst (step ascii_unicode initKeys screen40 (KeyEvent ?k) init) = Continue s'"
    using continue_exists [OF sepY_initKeys] by blast
  have "str ''ABCDEFGHIJKLMNOPQRSTUVWXYZ'' ! nat (evKey ?k - KeyCtrlA) = 67"
    by (simp add: str_def key_defs)
  with ctrl_detection [OF c] have "pressed s' (str ''Ctrl'')" "labelFromEvent ascii_unicode ?k = [67]"
    "pressed s' [67]"
    by (auto simp: key_defs)
  moreover have "str ''C'' = [67]" by (simp add: str_def)
  ultimately show ?thesis using c by auto
qed

section \<open>Keys the program does not know\<close>

text \<open>
  C6. A key event whose code is none of the named keys of \<open>labelFromEvent\<close>, not
  \<open>KeyRune\<close> and not a control code of A to Z is labelled \<open>Key[n]\<close>, where \<open>n\<close> is the
  code in decimal (reading \<open>n\<close> gives the code back); the label is not empty. The loop
  handles the event to its end: it leaves the three counters as they were, marks the
  label pressed and, where the screen has room for a line, writes the line of the event
  last.
\<close>

theorem unrecognized_key:
  assumes "evKey ev \<notin> {KeyEscape, KeyEnter, KeyTab, KeyBackspace, KeyBackspace2, KeyHome, KeyEnd,
             KeyInsert, KeyDelete, KeyPgUp, KeyPgDn, KeyUp, KeyDown, KeyLeft, KeyRight}"
    and "\<not> (KeyF1 \<le> evKey ev \<and> evKey ev \<le> KeyF12)"
    and "evKey ev \<noteq> KeyRune"
    and "\<not> (KeyCtrlA \<le> evKey ev \<and> evKey ev \<le> KeyCtrlZ)"
    and "sepY keys = Some y"
  shows "labelFromEvent U ev = str ''Key['' @ fmt_d (evKey ev) @ str '']'' \<and>
         read_d (fmt_d (evKey ev)) = evKey ev \<and>
         labelFromEvent U ev \<noteq> [] \<and>
         (\<exists>s'. fst (step U keys e (KeyEvent ev) s) = Continue s' \<and>
            escCount s' = escCount s \<and> enterCount s' = enterCount s \<and>
            spaceCount s' = spaceCount s \<and>
            pressed s' (labelFromEvent U ev) \<and>
            (0 < scrH e - y - 1 \<longrightarrow>
               logs s' \<noteq> [] \<and> last (logs s') = logLine (now e) (labelFromEvent U ev) ev))"
proof -
  note lab = label_unrecognized [OF assms(1-4), of U]
  have x: "exitLogic ev s = (s, False)"
    using assms(1,3) by (intro exitLogic_other) (auto simp: isEscape_def isEnter_def isSpace_def)
  then obtain s' where c: "fst (step U keys e (KeyEvent ev) s) = Continue s'"
    using continue_exists [OF assms(5), of ev s] by auto
  have n: "escCount s' = escCount s" "enterCount s' = enterCount s" "spaceCount s' = spaceCount s"
    using c x assms(5) by (auto simp: step_key_fst handleKey_fst)
  have p: "pressed s' (labelFromEvent U ev)"
    unfolding continue_pressed [OF c] by (rule markPressed_label)
  have l: "logs s' \<noteq> [] \<and> last (logs s') = logLine (now e) (labelFromEvent U ev) ev"
    if "0 < scrH e - y - 1"
    unfolding continue_logs [OF assms(5) c] using that by (rule trim_last)
  have "labelFromEvent U ev \<noteq> []"
    unfolding lab by (simp add: str_def)
  with lab c n p l show ?thesis
    by (auto simp: read_d_fmt_d)
qed

text \<open>The key code 300, after four Escape keys.\<close>

theorem unrecognized_key_witness:
  "labelFromEvent ascii_unicode \<lparr>evKey = 300, evRune = 0, evMods = 0\<rparr> = str ''Key[300]'' \<and>
   (\<exists>s'. fst (step ascii_unicode initKeys screen40
             (KeyEvent \<lparr>evKey = 300, evRune = 0, evMods = 0\<rparr>) (init\<lparr>escCount := 4\<rparr>)) =
             Continue s' \<and>
      escCount s' = 4 \<and> enterCount s' = 0 \<and> spaceCount s' = 0 \<and> pressed s' (str ''Key[300]'') \<and>
      logs s' = [str ''12:00:00 | Key[300] | Code=300 | Mods=None''])"
proof -
  let ?k = "\<lparr>evKey = 300, evRune = 0, evMods = 0\<rparr> :: EventKey"
  have f: "fmt_d 300 = str ''300''" by code_simp
  have line: "logLine noon (str ''Key[300]'') ?k = str ''12:00:00 | Key[300] | Code=300 | Mods=None''"
    by code_simp
  have k: "str ''Key['' @ str ''300'' @ str '']'' = str ''Key[300]''"
    by (simp add: str_def)
  from unrecognized_key [of ?k initKeys 35 ascii_unicode screen40 "init\<lparr>escCount := 4\<rparr>"]
  obtain s' where
    "labelFromEvent ascii_unicode ?k = str ''Key[300]''"
    "fst (step ascii_unicode initKeys screen40 (KeyEvent ?k) (init\<lparr>escCount := 4\<rparr>)) = Continue s'"
    "escCount s' = 4" "enterCount s' = 0" "spaceCount s' = 0" "pressed s' (str ''Key[300]'')"
    "logs s' \<noteq> []" "last (logs s') = str ''12:00:00 | Key[300] | Code=300 | Mods=None''"
    by (auto simp: key_defs sepY_initKeys f k screen40_def init_def line)
  moreover from this(2) have "logs s' = trim 4 [logLine noon (str ''Key[300]'') ?k]"
    using continue_logs [OF sepY_initKeys, of ascii_unicode screen40 ?k "init\<lparr>escCount := 4\<rparr>" s']
      calculation(1)
    by (simp add: screen40_def init_def)
  ultimately show ?thesis by (simp add: line trim_def)
qed

section \<open>Control codes that are named keys\<close>




section \<open>The log line\<close>

text \<open>
  C7, as the claim states it, fails: the verb \<^verbatim>\<open>%-7s\<close> fills a short label with blanks
  behind it, and cuts nothing off a long one. The line of a Backspace key holds the
  label in 9 columns, not in 7, and \<open>Esc\<close> is followed, not preceded, by its blanks.
\<close>

theorem log_line_format_counterexample:
  "(\<exists>s'. fst (step ascii_unicode initKeys screen40 (KeyEvent bsKey) init) = Continue s' \<and>
      logs s' = [str ''12:00:00 | Backspace | Code=  8 | Mods=None'']) \<and>
   length (pad_right 7 (labelFromEvent ascii_unicode bsKey)) \<noteq> 7 \<and>
   pad_right 7 (str ''Esc'') = str ''Esc    ''"
proof -
  have lab: "labelFromEvent ascii_unicode bsKey = str ''Backspace''"
    by (simp add: labelFromEvent_def bsKey_def key_defs)
  have "\<not> snd (exitLogic bsKey init)"
    by (simp add: exitLogic_def bsKey_def key_defs)
  then obtain s' where c: "fst (step ascii_unicode initKeys screen40 (KeyEvent bsKey) init) = Continue s'"
    using continue_exists [OF sepY_initKeys] by blast
  have line: "logLine noon (str ''Backspace'') bsKey = str ''12:00:00 | Backspace | Code=  8 | Mods=None''"
    by code_simp
  have "logs s' = [str ''12:00:00 | Backspace | Code=  8 | Mods=None'']"
    using continue_logs [OF sepY_initKeys c]
    by (simp add: lab line screen40_def init_def trim_def)
  moreover have "length (pad_right 7 (labelFromEvent ascii_unicode bsKey)) = 9"
    by (simp add: lab pad_right_length str_def)
  moreover have "pad_right 7 (str ''Esc'') = str ''Esc    ''"
    by (simp add: pad_right_def str_def numeral_eq_Suc)
  ultimately show ?thesis using c by auto
qed

text \<open>
  C7, amended. Where the screen has room for a line, the last line of the log after a
  key event that the loop handles to its end is: the time of day as \<open>hh:mm:ss\<close> (8
  characters), the label, the key code in decimal in at least 3 columns, and the names of
  the modifiers, with the fixed texts between them. The label stands first in its field
  and is followed by blanks up to 7 columns; a longer label is written in full, so the
  field is as wide as the larger of 7 and the length of the label.
\<close>

theorem log_line_format:
  assumes "sepY keys = Some y" and "0 < scrH e - y - 1"
    and "fst (step U keys e (KeyEvent ev) s) = Continue s'"
  shows "logs s' \<noteq> [] \<and>
         (\<exists>field.
            last (logs s') =
              format_time (now e) @ str '' | '' @ field @ str '' | Code='' @
              pad_left 3 (fmt_d (evKey ev)) @ str '' | Mods='' @ modString (evMods ev) \<and>
            field = labelFromEvent U ev @ replicate (7 - length (labelFromEvent U ev)) 32 \<and>
            length field = max 7 (length (labelFromEvent U ev))) \<and>
         length (format_time (now e)) = 8 \<and>
         read_d (fmt_d (evKey ev)) = evKey ev"
proof -
  have "logs s' \<noteq> [] \<and> last (logs s') = logLine (now e) (labelFromEvent U ev) ev"
    unfolding continue_logs [OF assms(1,3)] using assms(2) by (rule trim_last)
  moreover have "logLine (now e) (labelFromEvent U ev) ev =
      format_time (now e) @ str '' | '' @ pad_right 7 (labelFromEvent U ev) @ str '' | Code='' @
      pad_left 3 (fmt_d (evKey ev)) @ str '' | Mods='' @ modString (evMods ev)"
    by (simp add: logLine_def Let_def)
  moreover have "pad_right 7 (labelFromEvent U ev) =
      labelFromEvent U ev @ replicate (7 - length (labelFromEvent U ev)) 32"
    by (simp add: pad_right_def)
  ultimately show ?thesis
    using pad_right_length [of 7 "labelFromEvent U ev"]
    by (simp add: format_time_length read_d_fmt_d)
qed

text \<open>An Escape key with Ctrl and Shift held.\<close>

theorem log_line_format_witness:
  "\<exists>s'. fst (step ascii_unicode initKeys screen40
             (KeyEvent \<lparr>evKey = KeyEscape, evRune = 27, evMods = ModCtrl + ModShift\<rparr>) init) =
             Continue s' \<and>
        last (logs s') = str ''12:00:00 | Esc     | Code= 27 | Mods=Ctrl|Shift''"
proof -
  let ?k = "\<lparr>evKey = KeyEscape, evRune = 27, evMods = ModCtrl + ModShift\<rparr>"
  have "\<not> snd (exitLogic ?k init)"
    by (simp add: exitLogic_def init_def)
  then obtain s' where c: "fst (step ascii_unicode initKeys screen40 (KeyEvent ?k) init) = Continue s'"
    using continue_exists [OF sepY_initKeys] by blast
  have cap: "0 < scrH screen40 - 35 - 1"
    by (simp add: screen40_def)
  have lab: "labelFromEvent ascii_unicode ?k = str ''Esc''"
    by (simp add: labelFromEvent_def)
  have "format_time (now screen40) @ str '' | '' @ (str ''Esc'' @ replicate (7 - length (str ''Esc'')) 32) @
          str '' | Code='' @ pad_left 3 (fmt_d (evKey ?k)) @ str '' | Mods='' @ modString (evMods ?k) =
        str ''12:00:00 | Esc     | Code= 27 | Mods=Ctrl|Shift''"
    by code_simp
  with log_line_format [OF sepY_initKeys cap c] c show ?thesis
    by (auto simp: lab)
qed

section \<open>Resizing\<close>

text \<open>
  C8, as the claim states it, fails in its second half: on a resize event the loop calls
  \<^verbatim>\<open>Sync\<close> and nothing else. With three lines in the log and a screen shrunk to 37
  rows, which has room for one, the calls of the turn are not a frame of \<open>drawAll\<close>
  followed by \<^verbatim>\<open>Show\<close>, and the log still holds three lines.
\<close>

theorem resize_only_syncs_counterexample:
  "step ascii_unicode initKeys screen37 ResizeEvent threeLines = (Continue threeLines, [Sync]) \<and>
   (\<exists>cs. drawAll (scrW screen37) initKeys (logs threeLines) (pressed threeLines) = Some cs \<and>
      snd (step ascii_unicode initKeys screen37 ResizeEvent threeLines) \<noteq> cs @ [Show]) \<and>
   sepY initKeys = Some 35 \<and>
   \<not> int (length (logs threeLines)) \<le> max 0 (scrH screen37 - 35 - 1)"
proof -
  obtain cs where "drawAll (scrW screen37) initKeys (logs threeLines) (pressed threeLines) = Some cs"
    using drawAll_Some [OF sepY_initKeys] by blast
  then show ?thesis
    by (auto simp: step_def sepY_initKeys threeLines_def screen37_def)
qed

text \<open>
  C8, amended. A resize event changes nothing in the session (the pressed set, the log and
  the three counters stay) and the loop goes on; its only call to the screen is
  \<^verbatim>\<open>Sync\<close>, which is no frame of \<open>drawAll\<close> followed by \<^verbatim>\<open>Show\<close>. The log is cut to
  the room of the screen by the next key event that the loop handles to its end, from
  the height at that event.
\<close>

theorem resize_only_syncs:
  "step U keys e ResizeEvent s = (Continue s, [Sync]) \<and>
   (\<forall>w ls p cs. drawAll w keys ls p = Some cs \<longrightarrow> [Sync] \<noteq> cs @ [Show]) \<and>
   (\<forall>e' ev y s'. sepY keys = Some y \<and> fst (step U keys e' (KeyEvent ev) s) = Continue s' \<longrightarrow>
      int (length (logs s')) \<le> max 0 (scrH e' - y - 1))"
proof -
  have "int (length (logs s')) \<le> max 0 (scrH e' - y - 1)"
    if "sepY keys = Some y" "fst (step U keys e' (KeyEvent ev) s) = Continue s'" for e' ev y s'
    unfolding continue_logs [OF that] by (rule trim_length)
  then show ?thesis by (auto simp: step_def)
qed

text \<open>The screen shrinks to 37 rows; the next key leaves one line.\<close>

theorem resize_only_syncs_witness:
  "step ascii_unicode initKeys screen37 ResizeEvent threeLines = (Continue threeLines, [Sync]) \<and>
   (\<exists>s'. fst (step ascii_unicode initKeys screen37 (KeyEvent bsKey) threeLines) = Continue s' \<and>
      length (logs s') \<le> 1)"
proof -
  have "\<not> snd (exitLogic bsKey threeLines)"
    by (simp add: exitLogic_def bsKey_def key_defs)
  then obtain s' where c: "fst (step ascii_unicode initKeys screen37 (KeyEvent bsKey) threeLines) = Continue s'"
    using continue_exists [OF sepY_initKeys] by blast
  note r = resize_only_syncs [of ascii_unicode initKeys screen37 threeLines]
  from r have "int (length (logs s')) \<le> max 0 (scrH screen37 - 35 - 1)"
    using sepY_initKeys c by blast
  then have "length (logs s') \<le> 1" by (simp add: screen37_def)
  with r c show ?thesis by blast
qed

end
